theory Spec2Isabelle
  imports Main "HOL-Library.Word"
begin

section \<open>Exceptions thrown by the bridge\<close>

text \<open>
  The C++ code signals failure by throwing.  Every throw of the modelled functions is a
  value of \<open>exn\<close>, returned as \<open>Inl\<close> of a sum type:
  \<^item> \<open>Rcpp_stop msg\<close> is \<^verbatim>\<open>Rcpp::stop(msg)\<close> (the format string already expanded);
  \<^item> \<open>PythonException\<close> is \<^verbatim>\<open>throw PythonException(py_fetch_error())\<close>;
  \<^item> \<open>std_out_of_range\<close> is the \<^verbatim>\<open>std::out_of_range\<close> of \<^verbatim>\<open>std::string::substr\<close>;
  \<^item> \<open>InterruptedException\<close> is \<^verbatim>\<open>Rcpp::internal::InterruptedException\<close>.
\<close>

datatype exn =
    Rcpp_stop string
  | PythonException
  | std_out_of_range
  | InterruptedException

subsection \<open>Printing a C int with \<^verbatim>\<open>%d\<close>\<close>

fun show_nat :: "nat \<Rightarrow> string" where
  "show_nat n =
     (if n < 10 then [''0123456789'' ! n]
      else show_nat (n div 10) @ [''0123456789'' ! (n mod 10)])"

declare show_nat.simps [simp del]

definition show_int :: "int \<Rightarrow> string" where
  "show_int i = (if i < 0 then CHR ''-'' # show_nat (nat (- i)) else show_nat (nat i))"

section \<open>NumPy storage kinds and the narrowing table\<close>

text \<open>
  The type numbers \<^verbatim>\<open>NPY_BOOL\<close>, \<^verbatim>\<open>NPY_BYTE\<close>, ... are enumerators declared in
  \<^verbatim>\<open>libpython.h\<close>, which is not part of the source under study.  They are a parameter of
  the model: a record with one field per enumerator that \<^verbatim>\<open>python.cpp\<close> mentions.
  A C \<^verbatim>\<open>switch\<close> only compiles when its case labels are pairwise different, which is
  \<open>switch_labels_distinct\<close>.
\<close>

record npy_types =
  NPY_BOOL :: int
  NPY_BYTE :: int
  NPY_UBYTE :: int
  NPY_SHORT :: int
  NPY_USHORT :: int
  NPY_INT :: int
  NPY_UINT :: int
  NPY_LONG :: int
  NPY_ULONG :: int
  NPY_LONGLONG :: int
  NPY_ULONGLONG :: int
  NPY_FLOAT :: int
  NPY_DOUBLE :: int
  NPY_CFLOAT :: int
  NPY_CDOUBLE :: int
  NPY_OBJECT :: int
  NPY_STRING :: int
  NPY_UNICODE :: int
  NPY_HALF :: int

text \<open>The sixteen numeric case labels of \<^verbatim>\<open>narrow_array_typenum\<close>, in source order.\<close>

definition numeric_labels :: "npy_types \<Rightarrow> int list" where
  "numeric_labels K =
     [NPY_BOOL K,
      NPY_BYTE K, NPY_UBYTE K, NPY_SHORT K, NPY_USHORT K, NPY_INT K,
      NPY_UINT K, NPY_ULONG K, NPY_ULONGLONG K, NPY_LONG K, NPY_LONGLONG K,
      NPY_HALF K, NPY_FLOAT K, NPY_DOUBLE K,
      NPY_CFLOAT K, NPY_CDOUBLE K]"

text \<open>The three labels of the \<^verbatim>\<open>string/object (leave these alone)\<close> group.\<close>

definition structural_labels :: "npy_types \<Rightarrow> int list" where
  "structural_labels K = [NPY_STRING K, NPY_UNICODE K, NPY_OBJECT K]"

definition switch_labels :: "npy_types \<Rightarrow> int list" where
  "switch_labels K = numeric_labels K @ structural_labels K"

definition switch_labels_distinct :: "npy_types \<Rightarrow> bool" where
  "switch_labels_distinct K = distinct (switch_labels K)"

text \<open>The four kinds the comment above the function promises.\<close>

definition canonical_kinds :: "npy_types \<Rightarrow> int list" where
  "canonical_kinds K = [NPY_BOOL K, NPY_LONG K, NPY_DOUBLE K, NPY_CDOUBLE K]"

text \<open>
  \<^verbatim>\<open>int narrow_array_typenum(int typenum)\<close>: the \<^verbatim>\<open>switch\<close>, one \<open>if\<close> per group of
  case labels in source order, the \<^verbatim>\<open>default:\<close> last.
\<close>

definition narrow_array_typenum :: "npy_types \<Rightarrow> int \<Rightarrow> exn + int" where
  "narrow_array_typenum K typenum =
     (if typenum = NPY_BOOL K then Inr (NPY_BOOL K)
      else if typenum = NPY_BYTE K \<or> typenum = NPY_UBYTE K \<or> typenum = NPY_SHORT K
            \<or> typenum = NPY_USHORT K \<or> typenum = NPY_INT K
        then Inr (NPY_LONG K)
      else if typenum = NPY_UINT K \<or> typenum = NPY_ULONG K \<or> typenum = NPY_ULONGLONG K
            \<or> typenum = NPY_LONG K \<or> typenum = NPY_LONGLONG K \<or> typenum = NPY_HALF K
            \<or> typenum = NPY_FLOAT K \<or> typenum = NPY_DOUBLE K
        then Inr (NPY_DOUBLE K)
      else if typenum = NPY_CFLOAT K \<or> typenum = NPY_CDOUBLE K
        then Inr (NPY_CDOUBLE K)
      else if typenum = NPY_STRING K \<or> typenum = NPY_UNICODE K \<or> typenum = NPY_OBJECT K
        then Inr typenum
      else Inl (Rcpp_stop (''Conversion from numpy array type '' @ show_int typenum
                           @ '' is not supported'')))"

text \<open>
  NumPy's own numbering of these enumerators (\<^verbatim>\<open>enum NPY_TYPES\<close>), used for concrete
  instances.  The numbers 13, 16, 20, 21 and 22 are NumPy kinds that the switch does not
  list (long double, complex long double, void, datetime, timedelta).
\<close>

definition numpy_types :: npy_types where
  "numpy_types =
     \<lparr> NPY_BOOL = 0, NPY_BYTE = 1, NPY_UBYTE = 2, NPY_SHORT = 3, NPY_USHORT = 4,
       NPY_INT = 5, NPY_UINT = 6, NPY_LONG = 7, NPY_ULONG = 8, NPY_LONGLONG = 9,
       NPY_ULONGLONG = 10, NPY_FLOAT = 11, NPY_DOUBLE = 12, NPY_CFLOAT = 14,
       NPY_CDOUBLE = 15, NPY_OBJECT = 17, NPY_STRING = 18, NPY_UNICODE = 19,
       NPY_HALF = 23 \<rparr>"

section \<open>Properties of the narrowing table\<close>

lemma numpy_types_distinct: "switch_labels_distinct numpy_types"
  by (simp add: switch_labels_distinct_def switch_labels_def numeric_labels_def
      structural_labels_def numpy_types_def)

lemma show_nat_digit: "n < 10 \<Longrightarrow> show_nat n = [''0123456789'' ! n]"
  by (simp add: show_nat.simps)

lemma show_nat_step: "\<not> n < 10 \<Longrightarrow> show_nat n = show_nat (n div 10) @ [''0123456789'' ! (n mod 10)]"
  by (subst show_nat.simps) simp

lemma narrow_numeric_canonical:
  "typenum \<in> set (numeric_labels K) \<Longrightarrow>
   \<exists>c \<in> set (canonical_kinds K). narrow_array_typenum K typenum = Inr c"
  by (auto simp: numeric_labels_def canonical_kinds_def narrow_array_typenum_def)

lemma narrow_structural_unchanged:
  assumes "switch_labels_distinct K" and "typenum \<in> set (structural_labels K)"
  shows "narrow_array_typenum K typenum = Inr typenum"
proof -
  from assms(1) have "set (numeric_labels K) \<inter> set (structural_labels K) = {}"
    by (simp only: switch_labels_distinct_def switch_labels_def distinct_append)
  with assms(2) have "typenum \<notin> set (numeric_labels K)"
    by blast
  then have "typenum \<noteq> NPY_BOOL K" "typenum \<noteq> NPY_BYTE K" "typenum \<noteq> NPY_UBYTE K"
    "typenum \<noteq> NPY_SHORT K" "typenum \<noteq> NPY_USHORT K" "typenum \<noteq> NPY_INT K"
    "typenum \<noteq> NPY_UINT K" "typenum \<noteq> NPY_ULONG K" "typenum \<noteq> NPY_ULONGLONG K"
    "typenum \<noteq> NPY_LONG K" "typenum \<noteq> NPY_LONGLONG K" "typenum \<noteq> NPY_HALF K"
    "typenum \<noteq> NPY_FLOAT K" "typenum \<noteq> NPY_DOUBLE K" "typenum \<noteq> NPY_CFLOAT K"
    "typenum \<noteq> NPY_CDOUBLE K"
    by (simp_all add: numeric_labels_def)
  moreover from assms(2) have "typenum = NPY_STRING K \<or> typenum = NPY_UNICODE K
      \<or> typenum = NPY_OBJECT K"
    by (simp add: structural_labels_def)
  ultimately show ?thesis
    by (simp add: narrow_array_typenum_def)
qed

lemma narrow_default_stop:
  assumes "typenum \<notin> set (switch_labels K)"
  shows "narrow_array_typenum K typenum =
         Inl (Rcpp_stop (''Conversion from numpy array type '' @ show_int typenum
                         @ '' is not supported''))"
  using assms
  by (simp add: switch_labels_def numeric_labels_def structural_labels_def
      narrow_array_typenum_def)

text \<open>
  Claim C1.  Whatever type number \<open>narrow_array_typenum\<close> is given: a number among the
  sixteen numeric case labels is mapped to one of the four canonical kinds \<^verbatim>\<open>NPY_BOOL\<close>,
  \<^verbatim>\<open>NPY_LONG\<close>, \<^verbatim>\<open>NPY_DOUBLE\<close>, \<^verbatim>\<open>NPY_CDOUBLE\<close> (which are four different numbers);
  \<^verbatim>\<open>NPY_STRING\<close>, \<^verbatim>\<open>NPY_UNICODE\<close> and \<^verbatim>\<open>NPY_OBJECT\<close> are returned unchanged; every other
  number makes the function throw, and the message of the error contains the decimal
  form of that number.
\<close>

theorem narrow_array_typenum_coverage:
  assumes "switch_labels_distinct K"
  shows "(typenum \<in> set (numeric_labels K) \<longrightarrow>
            (\<exists>c \<in> set (canonical_kinds K). narrow_array_typenum K typenum = Inr c))
       \<and> distinct (canonical_kinds K)
       \<and> (typenum \<in> set (structural_labels K) \<longrightarrow>
            narrow_array_typenum K typenum = Inr typenum)
       \<and> (typenum \<notin> set (switch_labels K) \<longrightarrow>
            narrow_array_typenum K typenum =
              Inl (Rcpp_stop (''Conversion from numpy array type '' @ show_int typenum
                              @ '' is not supported'')))"
proof -
  from assms have "distinct (numeric_labels K)"
    by (simp only: switch_labels_distinct_def switch_labels_def distinct_append)
  then have "distinct (canonical_kinds K)"
    by (simp add: numeric_labels_def canonical_kinds_def)
  then show ?thesis
    using narrow_numeric_canonical [of typenum K]
      narrow_structural_unchanged [OF assms, of typenum]
      narrow_default_stop [of typenum K]
    by blast
qed

theorem narrow_array_typenum_coverage_witness:
  "switch_labels_distinct numpy_types
   \<and> narrow_array_typenum numpy_types 5 = Inr 7
   \<and> narrow_array_typenum numpy_types 19 = Inr 19
   \<and> narrow_array_typenum numpy_types 21 =
       Inl (Rcpp_stop ''Conversion from numpy array type 21 is not supported'')"
proof -
  have sh: "show_int 21 = ''21''"
    by (simp add: show_int_def show_nat_step show_nat_digit)
  have m5: "(5::int) \<in> set (numeric_labels numpy_types)"
    and m19: "(19::int) \<in> set (structural_labels numpy_types)"
    and m21: "(21::int) \<notin> set (switch_labels numpy_types)"
    by (simp_all add: switch_labels_def numeric_labels_def structural_labels_def
        numpy_types_def)
  have c5: "narrow_array_typenum numpy_types 5 = Inr 7"
    by (simp add: narrow_array_typenum_def numpy_types_def)
  from narrow_array_typenum_coverage [OF numpy_types_distinct, of 5] m5
  have "\<exists>c \<in> set (canonical_kinds numpy_types). narrow_array_typenum numpy_types 5 = Inr c"
    by blast
  moreover from narrow_array_typenum_coverage [OF numpy_types_distinct, of 19] m19
  have "narrow_array_typenum numpy_types 19 = Inr 19"
    by blast
  moreover from narrow_array_typenum_coverage [OF numpy_types_distinct, of 21] m21
  have "narrow_array_typenum numpy_types 21 =
       Inl (Rcpp_stop (''Conversion from numpy array type '' @ show_int 21
                              @ '' is not supported''))"
    by blast
  ultimately show ?thesis
    using numpy_types_distinct c5 sh by simp
qed

section \<open>Cross-thread call dispatcher\<close>

text \<open>
  Both dispatch loops call CPython's \<^verbatim>\<open>Py_AddPendingCall\<close> until it returns 0.  Whether
  the attempt number \<open>k\<close> (counted from 0) succeeds is the parameter \<open>add\<close> of the model.
  What the loops do besides is sleeping and writing to stderr: the trace of these effects
  is a list of events.  \<^verbatim>\<open>waited_ms\<close> is a \<^verbatim>\<open>size_t\<close>; in the finalizer loop it never
  exceeds 120100, in the loop of \<^verbatim>\<open>call_python_function_on_main_thread\<close> it is reduced
  modulo \<open>2 ^ 64\<close>.
\<close>

datatype event = sleep_for nat | PySys_WriteStderr string

datatype dispatch = Removed_on_main_thread | Enqueued | Abandoned

definition wait_ms :: nat where "wait_ms = 100"

definition finalizer_waiting :: string where
  "finalizer_waiting = ''Waiting to schedule object finalizer on main R interpeter thread...\<newline>''"
definition finalizer_error :: string where
  "finalizer_error = ''Error: unable to register R object finalizer on main thread\<newline>''"
definition call_waiting :: string where
  "call_waiting = ''Waiting to schedule call on main R interpeter thread...\<newline>''"

lemma warning_not_twice:
  assumes "(w + wait_ms) mod 60000 = 0"
  shows "(w + wait_ms + wait_ms) mod 60000 \<noteq> 0"
proof
  assume "(w + wait_ms + wait_ms) mod 60000 = 0"
  then have "60000 dvd (w + wait_ms) + wait_ms" by (simp add: dvd_eq_mod_eq_0)
  moreover from assms have "60000 dvd w + wait_ms" by (simp add: dvd_eq_mod_eq_0)
  ultimately have "60000 dvd wait_ms" by (simp only: dvd_add_right_iff)
  then show False by (simp add: wait_ms_def)
qed

text \<open>
  The number of iterations the finalizer loop can still make, for its termination proof.
\<close>

definition retry_budget :: "nat \<Rightarrow> nat" where
  "retry_budget w =
     (if w + wait_ms \<le> 120000 then 120002 - w
      else if (w + wait_ms) mod 60000 = 0 then 1 else 0)"

lemma retry_budget_below:
  assumes "w + wait_ms \<le> 120000"
  shows "retry_budget (w + wait_ms) < retry_budget w"
proof -
  from assms have r: "retry_budget w = 120002 - w" and p: "2 < 120002 - w"
    by (simp_all add: retry_budget_def wait_ms_def)
  have "retry_budget (w + wait_ms) \<le> max (120002 - (w + wait_ms)) 1"
    by (simp add: retry_budget_def)
  also from assms have "\<dots> < 120002 - w"
    by (simp add: wait_ms_def)
  finally show ?thesis by (simp only: r)
qed

lemma retry_budget_warning:
  assumes m: "(w + wait_ms) mod 60000 = 0" and big: "\<not> w + wait_ms \<le> 120000"
  shows "retry_budget (w + wait_ms) < retry_budget w"
proof -
  have t: "((w + wait_ms + wait_ms) mod 60000 = 0) = False"
    using warning_not_twice [OF m] by simp
  from big have b2: "(w + wait_ms + wait_ms \<le> 120000) = False"
    by simp
  have "retry_budget (w + wait_ms) = 0"
    by (simp only: retry_budget_def t b2 if_False)
  moreover have "retry_budget w = 1"
    using big by (simp add: retry_budget_def m)
  ultimately show ?thesis by simp
qed

text \<open>
  The \<^verbatim>\<open>while\<close> loop of \<^verbatim>\<open>Rcpp_precious_remove_main_thread\<close>: one call is one
  evaluation of the loop condition, followed by the loop body when the enqueue failed.
\<close>

function precious_remove_loop :: "(nat \<Rightarrow> bool) \<Rightarrow> nat \<Rightarrow> nat \<Rightarrow> event list \<Rightarrow> dispatch \<times> event list" where
  "precious_remove_loop add k waited_ms log =
     (if add k then (Enqueued, log)
      else if (waited_ms + wait_ms) mod 60000 = 0
        then precious_remove_loop add (Suc k) (waited_ms + wait_ms)
               (log @ [sleep_for wait_ms, PySys_WriteStderr finalizer_waiting])
      else if waited_ms + wait_ms > 60000 * 2
        then (Abandoned, log @ [sleep_for wait_ms, PySys_WriteStderr finalizer_error])
      else precious_remove_loop add (Suc k) (waited_ms + wait_ms) (log @ [sleep_for wait_ms]))"
  by pat_completeness auto
termination
proof (relation "measure (\<lambda>(add, k, w, log). retry_budget w)", goal_cases)
  case 1
  show ?case by simp
next
  case (2 add k w log)
  then have m: "(w + wait_ms) mod 60000 = 0"
    by simp
  have "retry_budget (w + wait_ms) < retry_budget w"
  proof (cases "w + wait_ms \<le> 120000")
    case True
    then show ?thesis by (rule retry_budget_below)
  next
    case False
    with m show ?thesis by (rule retry_budget_warning)
  qed
  then show ?case by simp
next
  case (3 add k w log)
  then have "w + wait_ms \<le> 120000"
    by simp
  then have "retry_budget (w + wait_ms) < retry_budget w"
    by (rule retry_budget_below)
  then show ?case by simp
qed

declare precious_remove_loop.simps [simp del]

definition Rcpp_precious_remove_main_thread :: "bool \<Rightarrow> (nat \<Rightarrow> bool) \<Rightarrow> dispatch \<times> event list" where
  "Rcpp_precious_remove_main_thread is_main_thread add =
     (if is_main_thread then (Removed_on_main_thread, [])
      else precious_remove_loop add 0 0 [])"

text \<open>
  The \<^verbatim>\<open>while(true)\<close> loop of \<^verbatim>\<open>call_python_function_on_main_thread\<close>.  Its only
  exit is the \<^verbatim>\<open>break\<close> on a successful enqueue, so it is a partial function: \<open>None\<close>
  when the loop never exits.  The function then returns \<^verbatim>\<open>Py_None\<close>.
\<close>

partial_function (option) call_loop :: "(nat \<Rightarrow> bool) \<Rightarrow> nat \<Rightarrow> nat \<Rightarrow> event list \<Rightarrow> event list option" where
  "call_loop add k waited_ms log =
     (if add k then Some log
      else call_loop add (Suc k) ((waited_ms + wait_ms) mod 2 ^ 64)
             (log @ sleep_for wait_ms #
                (if ((waited_ms + wait_ms) mod 2 ^ 64) mod 60000 = 0
                 then [PySys_WriteStderr call_waiting]
                 else [])))"

definition call_python_function_on_main_thread :: "(nat \<Rightarrow> bool) \<Rightarrow> (dispatch \<times> event list) option" where
  "call_python_function_on_main_thread add =
     map_option (\<lambda>log. (Enqueued, log)) (call_loop add 0 0 [])"

text \<open>Two behaviours of the pending-call queue, for concrete runs.\<close>

definition never_enqueues :: "nat \<Rightarrow> bool" where
  "never_enqueues k = False"

definition enqueues_at :: "nat \<Rightarrow> nat \<Rightarrow> bool" where
  "enqueues_at n k = (k = n)"

text \<open>
  The events of \<open>n\<close> failed attempts in a row, when \<open>w\<close> milliseconds were waited before:
  each one sleeps \<open>wait_ms\<close> and writes \<open>msg\<close> when the new total is a multiple of 60000.
\<close>

primrec retry_log :: "string \<Rightarrow> nat \<Rightarrow> nat \<Rightarrow> event list" where
  "retry_log msg w 0 = []"
| "retry_log msg w (Suc n) =
     sleep_for wait_ms # (if (w + wait_ms) mod 60000 = 0 then [PySys_WriteStderr msg] else [])
       @ retry_log msg (w + wait_ms) n"

fun slept :: "event list \<Rightarrow> nat" where
  "slept [] = 0"
| "slept (sleep_for ms # es) = ms + slept es"
| "slept (PySys_WriteStderr m # es) = slept es"

definition written :: "string \<Rightarrow> event list \<Rightarrow> nat" where
  "written msg es = length (filter (\<lambda>e. e = PySys_WriteStderr msg) es)"

lemma slept_append: "slept (xs @ ys) = slept xs + slept ys"
  by (induction xs rule: slept.induct) auto

lemma slept_retry_log: "slept (retry_log msg w n) = wait_ms * n"
  by (induction n arbitrary: w) (auto simp: slept_append)

lemma written_retry_log:
  "written msg (retry_log msg (wait_ms * j) n) = (j + n) div 600 - j div 600"
proof (induction n arbitrary: j)
  case 0
  show ?case by (simp add: written_def)
next
  case (Suc n)
  have w: "wait_ms * j + wait_ms = wait_ms * Suc j" by simp
  have "(100 * Suc j) mod (100 * 600) = 100 * (Suc j mod 600)"
    by (rule mult_mod_right [symmetric])
  then have m: "(wait_ms * Suc j) mod 60000 = 0 \<longleftrightarrow> Suc j mod 600 = 0"
    by (simp add: wait_ms_def)
  have d: "Suc j div 600 = (if Suc j mod 600 = 0 then Suc (j div 600) else j div 600)"
    by (rule div_Suc)
  have le: "Suc j div 600 \<le> (Suc j + n) div 600"
    by (simp add: div_le_mono)
  have IH: "written msg (retry_log msg (wait_ms * Suc j) n) = (Suc j + n) div 600 - Suc j div 600"
    by (rule Suc.IH)
  show ?case
    using IH le d m
    by (simp add: written_def w del: mult_Suc_right) 
qed

lemma written_other_retry_log:
  "msg' \<noteq> msg \<Longrightarrow> written msg' (retry_log msg w n) = 0"
  by (induction n arbitrary: w) (auto simp: written_def)

lemma precious_remove_loop_enqueued:
  "\<lbrakk>\<forall>i<n. \<not> add (k + i); add (k + n); w + wait_ms * n \<le> 120000\<rbrakk>
   \<Longrightarrow> precious_remove_loop add k w log = (Enqueued, log @ retry_log finalizer_waiting w n)"
proof (induction n arbitrary: k w log)
  case 0
  then show ?case by (simp add: precious_remove_loop.simps)
next
  case (Suc n)
  from Suc.prems(1) have nk: "\<not> add k" by force
  from Suc.prems(1) have fl: "\<forall>i<n. \<not> add (Suc k + i)" by force
  from Suc.prems(2) have ad: "add (Suc k + n)" by simp
  from Suc.prems(3) have bd: "(w + wait_ms) + wait_ms * n \<le> 120000" by simp
  then have nb: "(120000 < w + wait_ms) = False" by simp
  note IH = Suc.IH [OF fl ad bd]
  show ?case
    by (subst precious_remove_loop.simps) (simp add: nk nb IH)
qed

lemma precious_remove_loop_abandoned:
  "\<lbrakk>\<forall>i\<le>n. \<not> add (k + i); w + wait_ms * n = 120000\<rbrakk>
   \<Longrightarrow> precious_remove_loop add k w log =
       (Abandoned, log @ retry_log finalizer_waiting w n
                     @ [sleep_for wait_ms, PySys_WriteStderr finalizer_error])"
proof (induction n arbitrary: k w log)
  case 0
  then show ?case
    by (subst precious_remove_loop.simps) (simp add: wait_ms_def)
next
  case (Suc n)
  from Suc.prems(1) have nk: "\<not> add k" by force
  from Suc.prems(1) have fl: "\<forall>i\<le>n. \<not> add (Suc k + i)" by force
  from Suc.prems(2) have bd: "(w + wait_ms) + wait_ms * n = 120000" by simp
  then have nb: "(120000 < w + wait_ms) = False" by simp
  note IH = Suc.IH [OF fl bd]
  show ?case
    by (subst precious_remove_loop.simps) (simp add: nk nb IH)
qed

lemma call_loop_Some_add:
  assumes ret: "call_loop add k w log = Some y"
  shows "\<exists>j. add j"
proof (induction add k w log y rule: call_loop.raw_induct)
  case (1 f add k w log y)
  show ?case
  proof (cases "add k")
    case True
    then show ?thesis by blast
  next
    case False
    let ?w = "(w + wait_ms) mod 2 ^ 64"
    let ?log = "log @ sleep_for wait_ms #
                (if ?w mod 60000 = 0 then [PySys_WriteStderr call_waiting] else [])"
    from False "1"(2) have "f add (Suc k) ?w ?log = Some y"
      by simp
    then show ?thesis by (rule "1"(1))
  qed
next
  show "call_loop add k w log = Some y" by (rule ret)
qed

lemma call_loop_never:
  "\<forall>k. \<not> add k \<Longrightarrow> call_loop add k w log = None"
  using call_loop_Some_add [of add k w log]
  by (cases "call_loop add k w log") auto

lemma call_loop_enqueued:
  "\<lbrakk>\<forall>i<n. \<not> add (k + i); add (k + n); w + wait_ms * n < 2 ^ 64\<rbrakk>
   \<Longrightarrow> call_loop add k w log = Some (log @ retry_log call_waiting w n)"
proof (induction n arbitrary: k w log)
  case 0
  then show ?case by (simp add: call_loop.simps)
next
  case (Suc n)
  from Suc.prems(1) have nk: "\<not> add k" by force
  from Suc.prems(1) have fl: "\<forall>i<n. \<not> add (Suc k + i)" by force
  from Suc.prems(2) have ad: "add (Suc k + n)" by simp
  from Suc.prems(3) have bd: "(w + wait_ms) + wait_ms * n < 2 ^ 64" by simp
  then have md: "(w + wait_ms) mod 18446744073709551616 = w + wait_ms" by simp
  note IH = Suc.IH [OF fl ad bd]
  show ?case
    by (subst call_loop.simps) (simp add: nk md IH)
qed

subsection \<open>The retry policy of the two loops\<close>

lemma finalizer_loop_off_thread:
  "Rcpp_precious_remove_main_thread False add = precious_remove_loop add 0 0 []"
  by (simp add: Rcpp_precious_remove_main_thread_def)

lemma finalizer_gives_up:
  assumes "\<forall>i\<le>1200. \<not> add i"
  shows "Rcpp_precious_remove_main_thread False add =
        (Abandoned, retry_log finalizer_waiting 0 1200
                      @ [sleep_for wait_ms, PySys_WriteStderr finalizer_error])"
proof -
  from assms have 1: "\<forall>i\<le>1200. \<not> add (0 + i)"
    by (simp only: add_0)
  have 2: "0 + wait_ms * 1200 = 120000"
    by (simp add: wait_ms_def)
  from precious_remove_loop_abandoned [OF 1 2, of "[]"] show ?thesis
    by (simp only: finalizer_loop_off_thread append_Nil)
qed

text \<open>
  Claim C8, as the code has it.  Off the main thread, after \<open>n\<close> failed attempts followed
  by a success both loops have slept \<open>n\<close> times 100 ms, have written their waiting
  message \<open>n div 600\<close> times (once per minute of accumulated wait) and have enqueued
  the call.  The finalizer loop of \<open>Rcpp_precious_remove_main_thread\<close> has a ceiling: when
  the attempts 0 to 1200 all fail it has slept 1201 times (120100 ms), writes its error
  message and returns without having enqueued; with a success among the attempts 0 to
  1200 it does not give up.  The loop of \<open>call_python_function_on_main_thread\<close> has no
  ceiling: while no attempt succeeds it does not return, and it returns only by
  enqueueing.
\<close>

theorem dispatcher_retry_policy:
  "((\<forall>i<n. \<not> add i) \<and> add n \<and> n \<le> 1200 \<longrightarrow>
      Rcpp_precious_remove_main_thread False add = (Enqueued, retry_log finalizer_waiting 0 n))
   \<and> ((\<forall>i\<le>1200. \<not> add i) \<longrightarrow>
      Rcpp_precious_remove_main_thread False add =
        (Abandoned, retry_log finalizer_waiting 0 1200
                      @ [sleep_for wait_ms, PySys_WriteStderr finalizer_error]))
   \<and> ((\<forall>i<n. \<not> add i) \<and> add n \<and> wait_ms * n < 2 ^ 64 \<longrightarrow>
      call_python_function_on_main_thread add = Some (Enqueued, retry_log call_waiting 0 n))
   \<and> ((\<forall>i. \<not> add i) \<longrightarrow> call_python_function_on_main_thread add = None)
   \<and> slept (retry_log msg 0 n) = 100 * n
   \<and> written msg (retry_log msg 0 n) = n div 600
   \<and> written finalizer_error (retry_log finalizer_waiting 0 n) = 0"
proof -
  have a: "Rcpp_precious_remove_main_thread False add = (Enqueued, retry_log finalizer_waiting 0 n)"
    if "\<forall>i<n. \<not> add i" "add n" "n \<le> 1200"
    using that precious_remove_loop_enqueued [of n add 0 0 "[]"]
    by (simp add: Rcpp_precious_remove_main_thread_def wait_ms_def)
  have b: "Rcpp_precious_remove_main_thread False add =
        (Abandoned, retry_log finalizer_waiting 0 1200
                      @ [sleep_for wait_ms, PySys_WriteStderr finalizer_error])"
    if "\<forall>i\<le>1200. \<not> add i"
    using that by (rule finalizer_gives_up)
  have c: "call_python_function_on_main_thread add = Some (Enqueued, retry_log call_waiting 0 n)"
    if "\<forall>i<n. \<not> add i" "add n" "wait_ms * n < 2 ^ 64"
    using that call_loop_enqueued [of n add 0 0 "[]"]
    by (simp add: call_python_function_on_main_thread_def)
  have d: "call_python_function_on_main_thread add = None" if "\<forall>i. \<not> add i"
    using that by (simp add: call_python_function_on_main_thread_def call_loop_never)
  have e: "slept (retry_log msg 0 n) = 100 * n"
    by (simp add: slept_retry_log wait_ms_def)
  have f: "written msg (retry_log msg 0 n) = n div 600"
    using written_retry_log [of msg 0 n] by simp
  have g: "written finalizer_error (retry_log finalizer_waiting 0 n) = 0"
    by (rule written_other_retry_log) (simp add: finalizer_error_def finalizer_waiting_def)
  from a b c d e f g show ?thesis by blast
qed

lemma retry_log_3: "retry_log msg 0 3 = [sleep_for 100, sleep_for 100, sleep_for 100]"
  by (simp add: numeral_3_eq_3 wait_ms_def)

theorem dispatcher_retry_policy_witness:
  "Rcpp_precious_remove_main_thread False (enqueues_at 3)
     = (Enqueued, [sleep_for 100, sleep_for 100, sleep_for 100])
   \<and> fst (Rcpp_precious_remove_main_thread False never_enqueues) = Abandoned
   \<and> call_python_function_on_main_thread (enqueues_at 3)
     = Some (Enqueued, [sleep_for 100, sleep_for 100, sleep_for 100])
   \<and> call_python_function_on_main_thread never_enqueues = None"
proof -
  have h1: "(\<forall>i<3. \<not> enqueues_at 3 i) \<and> enqueues_at 3 3 \<and> (3::nat) \<le> 1200"
    by (simp add: enqueues_at_def)
  have h2: "\<forall>i\<le>1200. \<not> never_enqueues i"
    by (simp only: never_enqueues_def not_False_eq_True simp_thms)
  have h3: "(\<forall>i<3. \<not> enqueues_at 3 i) \<and> enqueues_at 3 3 \<and> wait_ms * 3 < 2 ^ 64"
    by (simp add: enqueues_at_def wait_ms_def)
  have h4: "\<forall>i. \<not> never_enqueues i"
    by (simp add: never_enqueues_def)
  note at3 = dispatcher_retry_policy [of 3 "enqueues_at 3" "[]"]
  note never = dispatcher_retry_policy [of 3 never_enqueues "[]"]
  have 1: "Rcpp_precious_remove_main_thread False (enqueues_at 3)
          = (Enqueued, retry_log finalizer_waiting 0 3)"
    by (rule at3 [THEN conjunct1, THEN mp, OF h1])
  have 2: "Rcpp_precious_remove_main_thread False never_enqueues =
        (Abandoned, retry_log finalizer_waiting 0 1200
                      @ [sleep_for wait_ms, PySys_WriteStderr finalizer_error])"
    by (rule never [THEN conjunct2, THEN conjunct1, THEN mp, OF h2])
  have 3: "call_python_function_on_main_thread (enqueues_at 3)
          = Some (Enqueued, retry_log call_waiting 0 3)"
    by (rule at3 [THEN conjunct2, THEN conjunct2, THEN conjunct1, THEN mp, OF h3])
  have 4: "call_python_function_on_main_thread never_enqueues = None"
    by (rule never [THEN conjunct2, THEN conjunct2, THEN conjunct2, THEN conjunct1, THEN mp, OF h4])
  show ?thesis
    by (simp only: 1 2 3 4 retry_log_3 fst_conv simp_thms)
qed

text \<open>
  Claim C8 as stated, with a ceiling for both paths, fails for
  \<open>call_python_function_on_main_thread\<close>: when the queue never accepts the call the
  function does not return at all, and when the queue accepts the attempt number 2000,
  after 200 seconds of waiting, the call is enqueued; the finalizer path has abandoned
  in both runs.
\<close>

theorem call_on_main_thread_has_no_ceiling:
  "call_python_function_on_main_thread never_enqueues = None
   \<and> fst (Rcpp_precious_remove_main_thread False never_enqueues) = Abandoned
   \<and> call_python_function_on_main_thread (enqueues_at 2000)
       = Some (Enqueued, retry_log call_waiting 0 2000)
   \<and> slept (retry_log call_waiting 0 2000) = 200000
   \<and> fst (Rcpp_precious_remove_main_thread False (enqueues_at 2000)) = Abandoned"
proof -
  have n: "\<forall>i. \<not> never_enqueues i"
    by (simp add: never_enqueues_def)
  then have 1: "call_python_function_on_main_thread never_enqueues = None"
    by (simp add: call_python_function_on_main_thread_def call_loop_never)
  have "\<forall>i\<le>1200. \<not> never_enqueues i"
    by (simp only: never_enqueues_def not_False_eq_True simp_thms)
  then have 2: "fst (Rcpp_precious_remove_main_thread False never_enqueues) = Abandoned"
    by (simp only: finalizer_gives_up fst_conv)
  have 3: "call_python_function_on_main_thread (enqueues_at 2000)
       = Some (Enqueued, retry_log call_waiting 0 2000)"
    using call_loop_enqueued [of 2000 "enqueues_at 2000" 0 0 "[]"]
    by (simp add: call_python_function_on_main_thread_def enqueues_at_def wait_ms_def)
  have 4: "slept (retry_log call_waiting 0 2000) = 200000"
    by (simp add: slept_retry_log wait_ms_def)
  have "\<not> enqueues_at 2000 i" if "i \<le> 1200" for i
    using that by (simp add: enqueues_at_def)
  then have "\<forall>i\<le>1200. \<not> enqueues_at 2000 i"
    by blast
  then have 5: "fst (Rcpp_precious_remove_main_thread False (enqueues_at 2000)) = Abandoned"
    by (simp only: finalizer_gives_up fst_conv)
  from 1 2 3 4 5 show ?thesis by simp
qed

end
